theory Spec2Isabelle
  imports Complex_Main "HOL-Library.Word" "HOL-Library.Log_Nat" "HOL-Library.AList"
begin

section \<open>JavaScript values used by \<open>src/pages/Index.tsx\<close>\<close>

subsection \<open>Strings\<close>

text \<open>
  A JavaScript string is a sequence of 16-bit code units; \<open>length\<close>, \<open>substring\<close>,
  \<open>trim\<close> and a regular expression without the \<open>u\<close> flag all work on code units.
\<close>

type_synonym jsstring = "16 word list"

definition utf16 :: "string \<Rightarrow> jsstring" where
  \<comment> \<open>an ASCII literal of the source as code units\<close>
  "utf16 s = map of_char s"

definition is_space :: "16 word \<Rightarrow> bool" where
  \<comment> \<open>ECMAScript WhiteSpace and LineTerminator: the code units that \<open>trim\<close> strips and
      that the character class escape \<open>\s\<close> matches\<close>
  "is_space c \<longleftrightarrow>
     c = 0x0009 \<or> c = 0x000A \<or> c = 0x000B \<or> c = 0x000C \<or> c = 0x000D \<or> c = 0x0020 \<or>
     c = 0x00A0 \<or> c = 0x1680 \<or> (0x2000 \<le> c \<and> c \<le> 0x200A) \<or> c = 0x2028 \<or>
     c = 0x2029 \<or> c = 0x202F \<or> c = 0x205F \<or> c = 0x3000 \<or> c = 0xFEFF"

definition trim :: "jsstring \<Rightarrow> jsstring" where
  \<comment> \<open>\<open>String.prototype.trim\<close>\<close>
  "trim s = rev (dropWhile is_space (rev (dropWhile is_space s)))"

text \<open>
  \<open>s.split(/\s+/)\<close>. The split algorithm of ECMAScript keeps a split point \<open>p\<close> and
  moves \<open>q\<close> forward until the pattern matches at \<open>q\<close>; the token is \<open>s[p..q)\<close>, and
  the greedy match is the whole run of white space starting at \<open>q\<close>, whose end is the
  next split point. After the loop the rest \<open>s[p..size)\<close> is one more token, also
  when it is empty; the empty string gives the one token \<open>""\<close>.
\<close>

function split_ws :: "jsstring \<Rightarrow> jsstring list" where
  "split_ws s =
     (let tok = takeWhile (\<lambda>c. \<not> is_space c) s;
          rest = dropWhile (\<lambda>c. \<not> is_space c) s
      in if rest = [] then [tok] else tok # split_ws (dropWhile is_space rest))"
  by pat_completeness auto

lemma dropWhile_space_shorter:
  assumes "dropWhile (\<lambda>c. \<not> is_space c) s \<noteq> []"
  shows "length (dropWhile is_space (dropWhile (\<lambda>c. \<not> is_space c) s)) < length s"
proof -
  let ?rest = "dropWhile (\<lambda>c. \<not> is_space c) s"
  from assms obtain c cs where rest: "?rest = c # cs"
    by (cases ?rest) auto
  have "is_space c"
    using hd_dropWhile [OF assms] rest by simp
  then have "length (dropWhile is_space ?rest) \<le> length cs"
    by (simp add: rest length_dropWhile_le)
  also have "length cs < length ?rest"
    by (simp add: rest)
  also have "length ?rest \<le> length s"
    by (rule length_dropWhile_le)
  finally show ?thesis .
qed

termination split_ws
  by (relation "measure length") (auto intro: dropWhile_space_shorter)

declare split_ws.simps [simp del]

subsection \<open>Numbers\<close>

text \<open>
  A finite JavaScript number is a rational. \<open>Math.round(x)\<close> is the integer nearest
  to \<open>x\<close>, a tie going towards \<open>+\<infinity>\<close>: \<open>floor(x + 1/2)\<close> on the exact value. \<open>NaN\<close> and
  the infinities are outside this model.
\<close>

definition Math_round :: "rat \<Rightarrow> int" where
  "Math_round x = \<lfloor>x + 1 / 2\<rfloor>"

text \<open>
  Arithmetic on numbers rounds its exact result to the nearest IEEE 754 double, a tie
  going to the even significand. A double is \<open>m * 2 ^ e\<close> with \<open>\<bar>m\<bar> < 2 ^ 53\<close> and
  \<open>- 1074 \<le> e\<close>; the exponent of \<open>x\<close> is \<open>\<lfloor>log\<^sub>2 \<bar>x\<bar>\<rfloor> - 52\<close>, or \<open>- 1074\<close> for a subnormal.
  Overflow to infinity (from \<open>2 ^ 1024\<close>) is outside this model.
\<close>

definition floor_log2 :: "rat \<Rightarrow> int" where
  \<comment> \<open>\<open>\<lfloor>log\<^sub>2 x\<rfloor>\<close> for \<open>x > 0\<close>, from the bit lengths of numerator and denominator\<close>
  "floor_log2 x =
     (let (a, b) = quotient_of x;
          d = bitlen a - bitlen b
      in if power_int 2 d \<le> x then d else d - 1)"

definition round_half_even :: "rat \<Rightarrow> int" where
  "round_half_even x =
     (let n = \<lfloor>x\<rfloor>; r = x - of_int n
      in if r < 1 / 2 then n else if 1 / 2 < r then n + 1 else if even n then n else n + 1)"

definition to_double :: "rat \<Rightarrow> rat" where
  "to_double x =
     (if x = 0 then 0
      else let e = max (floor_log2 \<bar>x\<bar> - 52) (- 1074)
           in of_int (round_half_even (x / power_int 2 e)) * power_int 2 e)"

definition js_mul :: "rat \<Rightarrow> rat \<Rightarrow> rat" where
  \<comment> \<open>the operator \<open>*\<close> on two doubles\<close>
  "js_mul x y = to_double (x * y)"

fun show_nat :: "nat \<Rightarrow> jsstring" where
  \<comment> \<open>a non-negative integer inside a template literal: its decimal digits\<close>
  "show_nat n =
     (if n < 10 then [0x30 + of_nat n] else show_nat (n div 10) @ [0x30 + of_nat (n mod 10)])"

declare show_nat.simps [simp del]

section \<open>The result record\<close>

record File =
  file_name :: jsstring  \<comment> \<open>\<open>file.name\<close>\<close>
  file_type :: jsstring  \<comment> \<open>\<open>file.type\<close>\<close>

record ExtractedData =
  text_str :: jsstring  \<comment> \<open>the field \<open>text\<close>\<close>
  confidence :: int
  fileName :: jsstring
  fileType :: jsstring
  timestamp :: jsstring
  wordCount :: nat

definition count_words :: "jsstring \<Rightarrow> nat" where
  \<comment> \<open>line 41: \<open>text.trim().split(/\s+/).filter(word => word.length > 0).length\<close>\<close>
  "count_words text = length (filter (\<lambda>word. length word > 0) (split_ws (trim text)))"

definition build_result :: "jsstring \<Rightarrow> rat \<Rightarrow> File \<Rightarrow> jsstring \<Rightarrow> ExtractedData" where
  \<comment> \<open>lines 41 to 50 of \<open>processImage\<close>; \<open>now\<close> is \<open>new Date().toISOString()\<close>\<close>
  "build_result text conf file now =
     (let wc = count_words text
      in \<lparr> text_str = trim text,
           confidence = Math_round conf,
           fileName = file_name file,
           fileType = file_type file,
           timestamp = now,
           wordCount = wc \<rparr>)"

section \<open>The component \<open>Index\<close>\<close>

text \<open>
  The four \<open>useState\<close> cells of the component, together with what its handlers do to
  the outside: the notices given to \<open>toast\<close>, the calls of \<open>console.error\<close>, the
  texts written to the clipboard, the engine workers created and not yet terminated,
  and the calls of \<open>processImage\<close> that are suspended at an \<open>await\<close>.

  JavaScript runs one handler at a time; a handler gives up control only at an
  \<open>await\<close>. So a call of \<open>processImage\<close> is a sequence of atomic segments, each
  started by an event: the drop, then the settling of \<open>createWorker\<close>, of
  \<open>worker.recognize\<close> and of \<open>worker.terminate\<close>. Between these, the engine may call
  the \<open>logger\<close>, and other handlers may run.
\<close>

datatype toast = ToastSuccess jsstring | ToastError jsstring

record logger_message =
  status :: jsstring
  m_progress :: rat  \<comment> \<open>the field \<open>progress\<close> of the message\<close>

datatype phase =
    Creating  \<comment> \<open>at \<open>await createWorker(...)\<close>, line 30\<close>
  | Recognizing  \<comment> \<open>at \<open>await worker.recognize(file)\<close>, line 38\<close>
  | Terminating jsstring rat  \<comment> \<open>at \<open>await worker.terminate()\<close>, line 39, holding \<open>text\<close> and \<open>confidence\<close>\<close>

record call =
  call_file :: File
  call_phase :: phase

record app =
  isProcessing :: bool
  progress :: int
  extractedData :: "ExtractedData option"
  dragActive :: bool
  toasts :: "toast list"  \<comment> \<open>oldest first\<close>
  console_errors :: nat
  clipboard :: "ExtractedData list"  \<comment> \<open>each entry stands for the text \<open>JSON.stringify(d, null, 2)\<close>\<close>
  workers :: "nat set"  \<comment> \<open>the worker of call \<open>n\<close> is worker \<open>n\<close>\<close>
  calls :: "(nat \<times> call) list"  \<comment> \<open>suspended calls of \<open>processImage\<close>, by call number\<close>
  next_call :: nat

definition init :: app where
  \<comment> \<open>lines 20 to 23\<close>
  "init = \<lparr> isProcessing = False, progress = 0, extractedData = None, dragActive = False,
            toasts = [], console_errors = 0, clipboard = [], workers = {}, calls = [],
            next_call = 0 \<rparr>"

definition logger :: "logger_message \<Rightarrow> app \<Rightarrow> app" where
  \<comment> \<open>lines 31 to 35\<close>
  "logger m s =
     (if status m = utf16 ''recognizing text''
      then s\<lparr>progress := Math_round (js_mul (m_progress m) 100)\<rparr>
      else s)"

definition processImage_begin :: "File \<Rightarrow> app \<Rightarrow> app" where
  \<comment> \<open>lines 26 to 30, up to the first \<open>await\<close>\<close>
  "processImage_begin file s =
     s\<lparr>isProcessing := True, progress := 0,
       calls := AList.update (next_call s) \<lparr>call_file = file, call_phase = Creating\<rparr> (calls s),
       next_call := Suc (next_call s)\<rparr>"

definition try_end :: "ExtractedData \<Rightarrow> app \<Rightarrow> app" where
  \<comment> \<open>lines 52 and 53\<close>
  "try_end result s =
     s\<lparr>extractedData := Some result,
       toasts := toasts s @ [ToastSuccess (utf16 ''Text extracted successfully! Found '' @
                    show_nat (wordCount result) @ utf16 '' words.'')]\<rparr>"

definition catch_block :: "app \<Rightarrow> app" where
  \<comment> \<open>lines 54 to 56\<close>
  "catch_block s =
     s\<lparr>console_errors := Suc (console_errors s),
       toasts := toasts s @ [ToastError (utf16 ''Failed to extract text. Please try again.'')]\<rparr>"

definition finally_block :: "nat \<Rightarrow> app \<Rightarrow> app" where
  \<comment> \<open>lines 57 to 60; call \<open>n\<close> then returns\<close>
  "finally_block n s =
     s\<lparr>isProcessing := False, progress := 0, calls := AList.delete n (calls s)\<rparr>"

definition processPDF :: "File \<Rightarrow> app \<Rightarrow> app" where
  \<comment> \<open>lines 63 to 65\<close>
  "processPDF file s =
     s\<lparr>toasts := toasts s @ [ToastError (utf16
        ''PDF processing requires a backend service. Please use image files for now.'')]\<rparr>"

definition onDrop :: "File list \<Rightarrow> app \<Rightarrow> app" where
  \<comment> \<open>lines 67 to 76\<close>
  "onDrop acceptedFiles s =
     (case acceptedFiles of
        [] \<Rightarrow> s
      | file # _ \<Rightarrow>
          if file_type file = utf16 ''application/pdf'' then processPDF file s
          else processImage_begin file s)"

definition copyToClipboard :: "bool \<Rightarrow> app \<Rightarrow> app" where
  \<comment> \<open>lines 89 to 98; \<open>ok\<close> says whether \<open>navigator.clipboard.writeText\<close> resolves\<close>
  "copyToClipboard ok s =
     (case extractedData s of
        None \<Rightarrow> s
      | Some d \<Rightarrow>
          if ok
          then s\<lparr>clipboard := clipboard s @ [d],
                 toasts := toasts s @ [ToastSuccess (utf16 ''JSON copied to clipboard!'')]\<rparr>
          else s\<lparr>toasts := toasts s @ [ToastError (utf16 ''Failed to copy to clipboard'')]\<rparr>)"

definition reset :: "app \<Rightarrow> app" where
  \<comment> \<open>lines 100 to 103\<close>
  "reset s = s\<lparr>extractedData := None, progress := 0\<rparr>"

definition preview :: "ExtractedData \<Rightarrow> jsstring" where
  \<comment> \<open>lines 230 and 231, the text inside the paragraph\<close>
  "preview d =
     take 500 (text_str d) @ (if length (text_str d) > 500 then utf16 ''...'' else [])"

datatype js_error = TypeError

definition subtype :: "jsstring \<Rightarrow> jsstring option" where
  \<comment> \<open>line 206: \<open>fileType.split('/')[1]\<close>, the part between the first slash and the next;
      \<open>None\<close> is \<open>undefined\<close>, for a string with no slash\<close>
  "subtype t =
     (let rest = dropWhile (\<lambda>c. c \<noteq> 0x002F) t
      in if rest = [] then None else Some (takeWhile (\<lambda>c. c \<noteq> 0x002F) (tl rest)))"

definition render_preview :: "app \<Rightarrow> js_error + jsstring option" where
  \<comment> \<open>what a render shows as preview, lines 167 and 225 to 232. Line 206 comes first in
      the same render: \<open>.toUpperCase()\<close> on \<open>undefined\<close> throws, and then nothing is shown.
      Without a throw, the paragraph is there for a result with a non-empty text.\<close>
  "render_preview s =
     (case extractedData s of
        None \<Rightarrow> Inr None
      | Some d \<Rightarrow>
          (case subtype (fileType d) of
             None \<Rightarrow> Inl TypeError
           | Some t \<Rightarrow> Inr (if text_str d = [] then None else Some (preview d))))"

subsection \<open>Events\<close>

datatype event =
    Drop "File list"  \<comment> \<open>the drop zone calls \<open>onDrop\<close>\<close>
  | LoggerCall nat logger_message  \<comment> \<open>the engine of call \<open>n\<close> reports\<close>
  | CreateResolved nat
  | CreateRejected nat
  | RecognizeResolved nat jsstring rat  \<comment> \<open>with \<open>data.text\<close> and \<open>data.confidence\<close>\<close>
  | RecognizeRejected nat
  | TerminateResolved nat jsstring  \<comment> \<open>with the time that \<open>new Date()\<close> then reads\<close>
  | TerminateRejected nat
  | CopyClick bool
  | ResetClick
  | DragEnter
  | DragLeave

text \<open>
  An event that settles a promise needs the call that awaits it, and the engine of a
  call reports only while the call is suspended; otherwise the event cannot happen
  (\<open>None\<close>).
\<close>

fun fire :: "event \<Rightarrow> app \<Rightarrow> app option" where
  "fire (Drop acceptedFiles) s = Some (onDrop acceptedFiles s)"
| "fire (LoggerCall n m) s =
     (case map_of (calls s) n of
        None \<Rightarrow> None
      | Some c \<Rightarrow> Some (logger m s))"
| "fire (CreateResolved n) s =
     (case map_of (calls s) n of
        None \<Rightarrow> None
      | Some c \<Rightarrow>
          (case call_phase c of
             Creating \<Rightarrow>
               Some (s\<lparr>workers := insert n (workers s),
                       calls := AList.update n (c\<lparr>call_phase := Recognizing\<rparr>) (calls s)\<rparr>)
           | _ \<Rightarrow> None))"
| "fire (CreateRejected n) s =
     (case map_of (calls s) n of
        None \<Rightarrow> None
      | Some c \<Rightarrow>
          (case call_phase c of
             Creating \<Rightarrow> Some (finally_block n (catch_block s))
           | _ \<Rightarrow> None))"
| "fire (RecognizeResolved n text conf) s =
     (case map_of (calls s) n of
        None \<Rightarrow> None
      | Some c \<Rightarrow>
          (case call_phase c of
             Recognizing \<Rightarrow>
               Some (s\<lparr>calls := AList.update n (c\<lparr>call_phase := Terminating text conf\<rparr>) (calls s)\<rparr>)
           | _ \<Rightarrow> None))"
| "fire (RecognizeRejected n) s =
     (case map_of (calls s) n of
        None \<Rightarrow> None
      | Some c \<Rightarrow>
          (case call_phase c of
             Recognizing \<Rightarrow> Some (finally_block n (catch_block s))
           | _ \<Rightarrow> None))"
| "fire (TerminateResolved n now) s =
     (case map_of (calls s) n of
        None \<Rightarrow> None
      | Some c \<Rightarrow>
          (case call_phase c of
             Terminating text conf \<Rightarrow>
               Some (finally_block n
                      (try_end (build_result text conf (call_file c) now)
                        (s\<lparr>workers := workers s - {n}\<rparr>)))
           | _ \<Rightarrow> None))"
| "fire (TerminateRejected n) s =
     (case map_of (calls s) n of
        None \<Rightarrow> None
      | Some c \<Rightarrow>
          (case call_phase c of
             Terminating text conf \<Rightarrow> Some (finally_block n (catch_block s))
           | _ \<Rightarrow> None))"
| "fire (CopyClick ok) s = Some (copyToClipboard ok s)"
| "fire ResetClick s = Some (reset s)"
| "fire DragEnter s = Some (s\<lparr>dragActive := True\<rparr>)"
| "fire DragLeave s = Some (s\<lparr>dragActive := False\<rparr>)"

fun run :: "event list \<Rightarrow> app \<Rightarrow> app option" where
  "run [] s = Some s"
| "run (e # es) s = (case fire e s of None \<Rightarrow> None | Some s' \<Rightarrow> run es s')"

subsection \<open>One call of \<open>processImage\<close>, run to its end\<close>

text \<open>
  What the engine does during one call: the reports before each promise settles, and
  how each promise settles. A promise after a rejected one is never made.
\<close>

record engine_run =
  create_reports :: "logger_message list"
  create_ok :: bool
  recognize_reports :: "logger_message list"
  recognize_result :: "(jsstring \<times> rat) option"  \<comment> \<open>\<open>None\<close>: \<open>recognize\<close> rejects\<close>
  terminate_reports :: "logger_message list"
  terminate_ok :: bool
  clock :: jsstring  \<comment> \<open>\<open>new Date().toISOString()\<close> on line 48\<close>

definition call_events :: "nat \<Rightarrow> engine_run \<Rightarrow> event list" where
  "call_events n r =
     map (LoggerCall n) (create_reports r) @
     (if \<not> create_ok r then [CreateRejected n]
      else CreateResolved n # map (LoggerCall n) (recognize_reports r) @
        (case recognize_result r of
           None \<Rightarrow> [RecognizeRejected n]
         | Some (text, conf) \<Rightarrow>
             RecognizeResolved n text conf # map (LoggerCall n) (terminate_reports r) @
               [if terminate_ok r then TerminateResolved n (clock r) else TerminateRejected n]))"

definition processImage :: "File \<Rightarrow> engine_run \<Rightarrow> app \<Rightarrow> app option" where
  \<comment> \<open>lines 25 to 61, with no other handler running in between\<close>
  "processImage file r s = run (call_events (next_call s) r) (processImage_begin file s)"

definition failed :: "engine_run \<Rightarrow> bool" where
  \<comment> \<open>some \<open>await\<close> inside the \<open>try\<close> throws\<close>
  "failed r \<longleftrightarrow> \<not> create_ok r \<or> recognize_result r = None \<or> \<not> terminate_ok r"

subsection \<open>Notions that the properties use\<close>

text \<open>
  The number of white-space-delimited non-empty tokens of a string, in the words of the
  specification and not by way of \<open>split\<close>: a token starts at a code unit that is not
  white space and that is the first of the string or follows white space.
\<close>

definition spec_token_count :: "jsstring \<Rightarrow> nat" where
  "spec_token_count s =
     length (filter (\<lambda>i. \<not> is_space (s ! i) \<and> (i = 0 \<or> is_space (s ! (i - 1))))
       [0..<length s])"

fun count_from :: "bool \<Rightarrow> jsstring \<Rightarrow> nat" where
  \<comment> \<open>the same count in one pass; \<open>inside\<close> says that the code unit before was part of a token\<close>
  "count_from inside [] = 0"
| "count_from inside (c # cs) =
     (if is_space c then count_from False cs
      else (if inside then 0 else 1) + count_from True cs)"

text \<open>
  A run in which no image is dropped while a call of \<open>processImage\<close> is suspended, and
  in which every event can happen.
\<close>

fun starts_call :: "event \<Rightarrow> bool" where
  "starts_call (Drop (file # files)) = (file_type file \<noteq> utf16 ''application/pdf'')"
| "starts_call _ = False"

fun serial :: "event list \<Rightarrow> app \<Rightarrow> bool" where
  "serial [] s = True"
| "serial (e # es) s =
     ((starts_call e \<longrightarrow> calls s = []) \<and>
      (case fire e s of None \<Rightarrow> False | Some s' \<Rightarrow> serial es s'))"

fun ends_call :: "event \<Rightarrow> bool" where
  \<comment> \<open>the events after which a call of \<open>processImage\<close> runs its \<open>finally\<close> block\<close>
  "ends_call (CreateRejected n) = True"
| "ends_call (RecognizeRejected n) = True"
| "ends_call (TerminateResolved n now) = True"
| "ends_call (TerminateRejected n) = True"
| "ends_call _ = False"

definition idle_progress_zero :: "app \<Rightarrow> bool" where
  "idle_progress_zero s \<longleftrightarrow> (\<not> isProcessing s \<longrightarrow> progress s = 0)"

definition at_most_one :: "app \<Rightarrow> bool" where
  \<comment> \<open>no call is suspended and the component is idle, or one call is and it is processing\<close>
  "at_most_one s \<longleftrightarrow>
     (calls s = [] \<and> \<not> isProcessing s \<and> progress s = 0) \<or>
     (\<exists>n c. calls s = [(n, c)] \<and> isProcessing s)"

subsection \<open>Sample values\<close>

definition png_file :: File where
  "png_file = \<lparr>file_name = utf16 ''scan.png'', file_type = utf16 ''image/png''\<rparr>"

definition pdf_file :: File where
  "pdf_file = \<lparr>file_name = utf16 ''scan.pdf'', file_type = utf16 ''application/pdf''\<rparr>"

definition noon :: jsstring where
  "noon = utf16 ''2024-01-01T12:00:00.000Z''"

definition hello_world :: jsstring where
  \<comment> \<open>\<open>"Hello   World\n"\<close>\<close>
  "hello_world = utf16 ''Hello   World'' @ [0x000A]"

definition recognizing :: "rat \<Rightarrow> logger_message" where
  "recognizing p = \<lparr>status = utf16 ''recognizing text'', m_progress = p\<rparr>"

definition loading :: "rat \<Rightarrow> logger_message" where
  "loading p = \<lparr>status = utf16 ''loading language traineddata'', m_progress = p\<rparr>"

definition result_of_length :: "nat \<Rightarrow> ExtractedData" where
  "result_of_length n =
     \<lparr> text_str = replicate n 0x61, confidence = 87, fileName = file_name png_file,
       fileType = file_type png_file, timestamp = noon, wordCount = 1 \<rparr>"

definition showing :: app where
  \<comment> \<open>the initial state with a result on display\<close>
  "showing = init\<lparr>extractedData := Some (result_of_length 5)\<rparr>"

definition undecodable :: engine_run where
  \<comment> \<open>the worker is created, then \<open>recognize\<close> rejects\<close>
  "undecodable =
     \<lparr> create_reports = [loading 1], create_ok = True,
       recognize_reports = [recognizing (1 / 2)], recognize_result = None,
       terminate_reports = [], terminate_ok = True, clock = noon \<rparr>"

definition overlapping :: "event list" where
  \<comment> \<open>a second image is dropped while the first is being recognised; the first call
      ends, then the engine of the second reports\<close>
  "overlapping =
     [Drop [png_file], Drop [png_file], CreateResolved 0, CreateResolved 1,
      RecognizeResolved 0 hello_world 87, TerminateResolved 0 noon,
      LoggerCall 1 (recognizing (1 / 2))]"

definition one_by_one :: "event list" where
  "one_by_one =
     [Drop [png_file], CreateResolved 0, LoggerCall 0 (recognizing (1 / 2)),
      RecognizeRejected 0, ResetClick, Drop [pdf_file], Drop [png_file],
      LoggerCall 1 (loading 1), CreateRejected 1]"

section \<open>The word count\<close>

lemma count_from_token:
  "\<forall>c\<in>set tok. \<not> is_space c \<Longrightarrow>
     count_from b (tok @ r) =
       (if tok = [] then count_from b r else (if b then 0 else 1) + count_from True r)"
  by (induction tok arbitrary: b) auto

lemma count_from_spaces:
  "\<forall>c\<in>set sp. is_space c \<Longrightarrow>
     count_from b (sp @ r) = (if sp = [] then count_from b r else count_from False r)"
  by (induction sp arbitrary: b) auto

lemma split_ws_count:
  "length (filter (\<lambda>word. length word > 0) (split_ws s)) = count_from False s"
proof (induction s rule: split_ws.induct)
  case (1 s)
  let ?tok = "takeWhile (\<lambda>c. \<not> is_space c) s"
  let ?rest = "dropWhile (\<lambda>c. \<not> is_space c) s"
  have tok: "\<forall>c\<in>set ?tok. \<not> is_space c"
    by (auto dest: set_takeWhileD)
  have s: "s = ?tok @ ?rest"
    by simp
  show ?case
  proof (cases "?rest = []")
    case True
    then have "?tok = s" by simp
    then have "count_from False s = count_from False (?tok @ [])"
      by (simp only: append_Nil2)
    also have "\<dots> = (if ?tok = [] then 0 else 1)"
      using count_from_token [OF tok, of False "[]"] by simp
    finally have "count_from False s = (if ?tok = [] then 0 else 1)" .
    moreover have "split_ws s = [?tok]"
      using True by (simp add: split_ws.simps [of s] Let_def)
    ultimately show ?thesis by simp
  next
    case False
    let ?sp = "takeWhile is_space ?rest"
    let ?r = "dropWhile is_space ?rest"
    have hd: "is_space (hd ?rest)"
      using hd_dropWhile [OF False] by simp
    have sp: "\<forall>c\<in>set ?sp. is_space c"
      by (auto dest: set_takeWhileD)
    have sp_ne: "?sp \<noteq> []"
      using False hd by (simp add: takeWhile_eq_Nil_iff)
    have rest: "?rest = ?sp @ ?r"
      by simp
    have IH: "length (filter (\<lambda>word. length word > 0) (split_ws ?r)) = count_from False ?r"
      using "1.IH" [OF refl refl False] .
    have split: "split_ws s = ?tok # split_ws ?r"
      using False by (auto simp add: split_ws.simps [of s] Let_def)
    have after: "count_from b (?sp @ ?r) = count_from False ?r" for b
      using count_from_spaces [OF sp, of b ?r] sp_ne by (simp only: if_False)
    have "count_from False s = count_from False (?tok @ ?sp @ ?r)"
      by simp
    also have "\<dots> = (if ?tok = [] then 0 else 1) + count_from False ?r"
      by (simp add: count_from_token [OF tok] after del: takeWhile_dropWhile_id)
    finally show ?thesis
      using split IH by simp
  qed
qed

lemma count_from_index:
  "count_from b s =
     length (filter (\<lambda>i. \<not> is_space (s ! i) \<and> (if i = 0 then \<not> b else is_space (s ! (i - 1))))
       [0..<length s])"
proof (induction s arbitrary: b)
  case Nil
  then show ?case by simp
next
  case (Cons c cs)
  have "[0..<Suc (length cs)] = 0 # [Suc 0..<Suc (length cs)]"
    by (rule upt_conv_Cons) simp
  also have "[Suc 0..<Suc (length cs)] = map Suc [0..<length cs]"
    by (rule map_Suc_upt [symmetric])
  finally have upt: "[0..<length (c # cs)] = 0 # map Suc [0..<length cs]"
    by simp
  have shift: "filter (\<lambda>i. \<not> is_space ((c # cs) ! i) \<and>
                   (if i = 0 then \<not> b else is_space ((c # cs) ! (i - 1)))) (map Suc [0..<length cs]) =
               map Suc (filter (\<lambda>j. \<not> is_space (cs ! j) \<and>
                   (if j = 0 then \<not> (\<not> is_space c) else is_space (cs ! (j - 1)))) [0..<length cs])"
    unfolding filter_map
    by (rule arg_cong [where f = "map Suc"], rule filter_cong) (auto simp: nth_Cons')
  show ?case
    unfolding upt
    by (simp only: filter.simps shift) (simp add: Cons.IH)
qed

lemma count_from_spec_token_count: "count_from False s = spec_token_count s"
  unfolding spec_token_count_def count_from_index
  by (rule arg_cong [where f = length], rule filter_cong) auto

lemma count_from_zero:
  "count_from b s = 0 \<longleftrightarrow>
     (\<forall>c\<in>set (if b then dropWhile (\<lambda>c. \<not> is_space c) s else s). is_space c)"
  by (induction s arbitrary: b) auto

lemma dropWhile_all:
  "(\<forall>x\<in>set (dropWhile P xs). P x) \<longleftrightarrow> dropWhile P xs = []"
proof
  assume all: "\<forall>x\<in>set (dropWhile P xs). P x"
  show "dropWhile P xs = []"
  proof (rule ccontr)
    assume ne: "dropWhile P xs \<noteq> []"
    then have "hd (dropWhile P xs) \<in> set (dropWhile P xs)"
      by (rule hd_in_set)
    with all have "P (hd (dropWhile P xs))" ..
    with hd_dropWhile [OF ne] show False ..
  qed
next
  assume "dropWhile P xs = []"
  then show "\<forall>x\<in>set (dropWhile P xs). P x"
    by (simp only: set_simps ball_empty)
qed

lemma trim_Nil: "trim s = [] \<longleftrightarrow> (\<forall>c\<in>set s. is_space c)"
proof -
  have "trim s = [] \<longleftrightarrow> (\<forall>c\<in>set (dropWhile is_space s). is_space c)"
    by (simp add: trim_def)
  also have "\<dots> \<longleftrightarrow> dropWhile is_space s = []"
    by (rule dropWhile_all)
  finally show ?thesis by simp
qed

lemma trim_spaces: "(\<forall>c\<in>set (trim s). is_space c) \<longleftrightarrow> trim s = []"
proof -
  let ?ys = "rev (dropWhile is_space s)"
  have "(\<forall>c\<in>set (trim s). is_space c) \<longleftrightarrow> (\<forall>c\<in>set (dropWhile is_space ?ys). is_space c)"
    by (simp add: trim_def)
  also have "\<dots> \<longleftrightarrow> dropWhile is_space ?ys = []"
    by (rule dropWhile_all)
  also have "\<dots> \<longleftrightarrow> trim s = []"
    by (simp add: trim_def)
  finally show ?thesis .
qed

lemma count_words_hello_world: "count_words hello_world = 2"
  by code_simp

text \<open>
  C3. The \<open>wordCount\<close> of a result is the number of white-space-delimited non-empty
  tokens of its trimmed text. It is zero exactly when that text is empty or white
  space only, which is exactly when the raw text is; the raw text \<open>""\<close> gives the word
  count 0 and the text \<open>""\<close>.
\<close>

theorem word_count_tokens:
  "wordCount (build_result text c file now) = spec_token_count (text_str (build_result text c file now)) \<and>
   (wordCount (build_result text c file now) = 0 \<longleftrightarrow>
      text_str (build_result text c file now) = [] \<or>
      (\<forall>ch\<in>set (text_str (build_result text c file now)). is_space ch)) \<and>
   (wordCount (build_result text c file now) = 0 \<longleftrightarrow> (\<forall>ch\<in>set text. is_space ch)) \<and>
   wordCount (build_result [] c file now) = 0 \<and>
   text_str (build_result [] c file now) = []"
proof -
  have "count_words t = count_from False (trim t)" for t
    by (simp only: count_words_def split_ws_count)
  then have wc: "wordCount (build_result t c file now) = count_from False (trim t)" for t
    by (simp add: build_result_def Let_def)
  have tx: "text_str (build_result t c file now) = trim t" for t
    by (simp add: build_result_def Let_def)
  have zero: "count_from False (trim t) = 0 \<longleftrightarrow> trim t = []" for t
    by (simp add: count_from_zero trim_spaces)
  show ?thesis
    unfolding wc tx zero
    by (auto simp: count_from_spec_token_count trim_spaces trim_Nil) 
qed

theorem word_count_tokens_witness:
  "list_all is_space (utf16 ''  '') \<and>
   wordCount (build_result (utf16 ''  '') 0 png_file noon) = 0 \<and>
   spec_token_count (text_str (build_result hello_world 0 png_file noon)) = 2"
proof -
  have blank: "\<forall>ch\<in>set (utf16 ''  ''). is_space ch"
    by (simp add: utf16_def is_space_def)
  have two: "wordCount (build_result hello_world 0 png_file noon) = 2"
    by (simp add: build_result_def Let_def count_words_hello_world)
  from word_count_tokens [of "utf16 ''  ''" 0 png_file noon] blank
  have "wordCount (build_result (utf16 ''  '') 0 png_file noon) = 0"
    by blast
  moreover from word_count_tokens [of hello_world 0 png_file noon] two
  have "spec_token_count (text_str (build_result hello_world 0 png_file noon)) = 2"
    by simp
  ultimately show ?thesis
    using blank by (simp add: list_all_iff)
qed

section \<open>The scenario \<open>Hello   World\<close>\<close>

lemma trim_hello_world: "trim hello_world = utf16 ''Hello   World''"
  by code_simp

lemma Math_round_scenario: "Math_round (to_double (87 / 100)) = 1 \<and> Math_round 87 = 87"
  by code_simp

text \<open>
  C1, as the code has it. For the raw text \<open>"Hello   World\n"\<close> the result has the text
  \<open>"Hello   World"\<close> and the word count 2. Its confidence is \<open>Math.round\<close> of the
  engine's confidence, with no scaling by 100: the engine confidence 0.87 gives 1, and
  the engine confidence 87 gives 87.
\<close>

theorem scenario_hello_world:
  "text_str (build_result hello_world c file now) = utf16 ''Hello   World'' \<and>
   wordCount (build_result hello_world c file now) = 2 \<and>
   confidence (build_result hello_world c file now) = Math_round c \<and>
   confidence (build_result hello_world (to_double (87 / 100)) file now) = 1 \<and>
   confidence (build_result hello_world 87 file now) = 87"
  by (simp add: build_result_def Let_def trim_hello_world count_words_hello_world
      Math_round_scenario)

text \<open>
  C1, as stated, fails: for the engine confidence 0.87 the confidence of the result is
  not 87.
\<close>

theorem scenario_confidence_not_87:
  "confidence (build_result hello_world (to_double (87 / 100)) png_file noon) \<noteq> 87"
  by (simp add: build_result_def Let_def Math_round_scenario)

section \<open>Rounding of the confidence\<close>

lemma confidence_zero_or_one:
  "0 \<le> c \<Longrightarrow> c \<le> 1 \<Longrightarrow> confidence (build_result text c file now) \<in> {0, 1}"
proof -
  assume c: "0 \<le> c" "c \<le> 1"
  define n where "n = Math_round c"
  have "0 \<le> n" "n \<le> 1"
    using c by (simp_all add: n_def Math_round_def le_floor_iff floor_le_iff)
  then have "n = 0 \<or> n = 1"
    by arith
  moreover have "confidence (build_result text c file now) = n"
    by (simp add: build_result_def Let_def n_def)
  ultimately show ?thesis
    by auto
qed

text \<open>
  C6. For an engine confidence between 0 and 1, the \<open>confidence\<close> of the result is an
  integer between 0 and 100.
\<close>

theorem confidence_in_range:
  "0 \<le> c \<Longrightarrow> c \<le> 1 \<Longrightarrow>
     0 \<le> confidence (build_result text c file now) \<and>
     confidence (build_result text c file now) \<le> 100"
  by (simp add: build_result_def Math_round_def Let_def le_floor_iff floor_le_iff)

theorem confidence_in_range_witness:
  "(0::rat) \<le> 87 / 100 \<and> (87 / 100 :: rat) \<le> 1 \<and>
     0 \<le> confidence (build_result (utf16 ''Hello'') (87 / 100) png_file noon) \<and>
     confidence (build_result (utf16 ''Hello'') (87 / 100) png_file noon) \<le> 100"
  using confidence_in_range [of "87 / 100" "utf16 ''Hello''" png_file noon] by simp

section \<open>Reports of the engine\<close>

lemma js_mul_half: "js_mul (1 / 2) 100 = 50"
  by code_simp

lemma Math_round_50: "Math_round 50 = 50"
  by code_simp

text \<open>
  The product on line 33 is the product of doubles. For the double nearest to 0.015 it
  is 1.5 and the progress becomes 2, where the exact product lies below 1.5.
\<close>

lemma progress_of_double_product:
  "Math_round (js_mul (to_double (15 / 1000)) 100) = 2 \<and>
   Math_round (to_double (15 / 1000) * 100) = 1"
  by code_simp

text \<open>
  C7. When the engine of a suspended call reports with the status \<open>recognizing text\<close>
  and the completion \<open>p\<close>, the progress becomes \<open>Math.round(p * 100)\<close>, the product
  being the product of doubles, and nothing else changes; a report with any other
  status changes nothing.
\<close>

theorem logger_progress:
  "map_of (calls s) n = Some c \<Longrightarrow>
     (status m = utf16 ''recognizing text'' \<longrightarrow>
        fire (LoggerCall n m) s =
          Some (s\<lparr>progress := Math_round (js_mul (m_progress m) 100)\<rparr>)) \<and>
     (status m \<noteq> utf16 ''recognizing text'' \<longrightarrow> fire (LoggerCall n m) s = Some s)"
  by (simp add: logger_def)

theorem logger_progress_witness:
  "fire (LoggerCall 0 (recognizing (1 / 2))) (processImage_begin png_file init) =
     Some ((processImage_begin png_file init)\<lparr>progress := 50\<rparr>) \<and>
   fire (LoggerCall 0 (loading (1 / 2))) (processImage_begin png_file init) =
     Some (processImage_begin png_file init)"
proof -
  let ?s = "processImage_begin png_file init"
  have suspended: "map_of (calls ?s) 0 = Some \<lparr>call_file = png_file, call_phase = Creating\<rparr>"
    by (simp add: processImage_begin_def init_def)
  have other: "status (loading (1 / 2)) \<noteq> utf16 ''recognizing text''"
    by (simp add: loading_def utf16_def)
  have "fire (LoggerCall 0 (recognizing (1 / 2))) ?s =
          Some (?s\<lparr>progress := Math_round (js_mul (m_progress (recognizing (1 / 2))) 100)\<rparr>)"
    using logger_progress [OF suspended, of "recognizing (1 / 2)"] by (simp add: recognizing_def)
  moreover have "fire (LoggerCall 0 (loading (1 / 2))) ?s = Some ?s"
    using logger_progress [OF suspended, of "loading (1 / 2)"] other by blast
  ultimately show ?thesis
    by (simp add: recognizing_def js_mul_half Math_round_50)
qed

section \<open>One call of \<open>processImage\<close>\<close>

lemma logger_fields:
  "isProcessing (logger m s) = isProcessing s"
  "extractedData (logger m s) = extractedData s"
  "dragActive (logger m s) = dragActive s"
  "toasts (logger m s) = toasts s"
  "console_errors (logger m s) = console_errors s"
  "clipboard (logger m s) = clipboard s"
  "workers (logger m s) = workers s"
  "calls (logger m s) = calls s"
  "next_call (logger m s) = next_call s"
  by (simp_all add: logger_def)

lemma fold_logger_fields:
  "isProcessing (fold logger ms s) = isProcessing s"
  "extractedData (fold logger ms s) = extractedData s"
  "dragActive (fold logger ms s) = dragActive s"
  "toasts (fold logger ms s) = toasts s"
  "console_errors (fold logger ms s) = console_errors s"
  "clipboard (fold logger ms s) = clipboard s"
  "workers (fold logger ms s) = workers s"
  "calls (fold logger ms s) = calls s"
  "next_call (fold logger ms s) = next_call s"
  by (induction ms arbitrary: s) (simp_all add: logger_fields)

lemma run_reports:
  "map_of (calls s) n \<noteq> None \<Longrightarrow>
     run (map (LoggerCall n) ms @ es) s = run es (fold logger ms s)"
  by (induction ms arbitrary: s) (auto simp: logger_fields)

lemma begin_suspended:
  "map_of (calls (processImage_begin file s)) (next_call s) =
     Some \<lparr>call_file = file, call_phase = Creating\<rparr>"
  by (simp add: processImage_begin_def update_conv')

lemma begin_fields:
  "extractedData (processImage_begin file s) = extractedData s"
  "workers (processImage_begin file s) = workers s"
  "toasts (processImage_begin file s) = toasts s"
  "clipboard (processImage_begin file s) = clipboard s"
  by (simp_all add: processImage_begin_def)

lemma failed_undecodable: "failed undecodable"
  by (simp add: failed_def undecodable_def)

text \<open>
  C4. When \<open>createWorker\<close>, \<open>recognize\<close> or \<open>terminate\<close> rejects, the call ends with the
  progress 0, with \<open>isProcessing\<close> false, and with the \<open>extractedData\<close> that was there
  before the call.
\<close>

theorem failure_resets:
  "failed r \<Longrightarrow>
     \<exists>s'. processImage file r s = Some s' \<and> progress s' = 0 \<and> \<not> isProcessing s' \<and>
          extractedData s' = extractedData s"
proof -
  assume f: "failed r"
  let ?n = "next_call s"
  let ?s0 = "processImage_begin file s"
  have data0: "extractedData ?s0 = extractedData s"
    by (simp add: begin_fields)
  show ?thesis
  proof (cases "create_ok r")
    case False
    then show ?thesis
      by (simp add: processImage_def call_events_def run_reports begin_suspended
          fold_logger_fields finally_block_def catch_block_def data0)
  next
    case True
    show ?thesis
    proof (cases "recognize_result r")
      case None
      with True show ?thesis
        by (simp add: processImage_def call_events_def run_reports begin_suspended
            fold_logger_fields finally_block_def catch_block_def data0 update_conv')
    next
      case (Some tc)
      obtain raw conf where tc: "tc = (raw, conf)"
        by (cases tc)
      from f True Some have "\<not> terminate_ok r"
        by (simp add: failed_def)
      with True Some tc show ?thesis
        by (simp add: processImage_def call_events_def run_reports begin_suspended
            fold_logger_fields finally_block_def catch_block_def data0 update_conv')
    qed
  qed
qed

theorem failure_resets_witness:
  "failed undecodable \<and>
   map_option progress (processImage png_file undecodable showing) = Some 0 \<and>
   map_option isProcessing (processImage png_file undecodable showing) = Some False \<and>
   map_option extractedData (processImage png_file undecodable showing) =
     Some (Some (result_of_length 5))"
proof -
  from failure_resets [OF failed_undecodable, of png_file showing] obtain s'
    where "processImage png_file undecodable showing = Some s'" "progress s' = 0"
      "\<not> isProcessing s'" "extractedData s' = extractedData showing"
    by blast
  then show ?thesis
    using failed_undecodable by (simp add: showing_def)
qed

text \<open>The same for the event alone, whatever else has run since the call began.\<close>

lemma rejection_keeps_result:
  "e = CreateRejected n \<or> e = RecognizeRejected n \<or> e = TerminateRejected n \<Longrightarrow>
     fire e s = Some s' \<Longrightarrow>
     progress s' = 0 \<and> \<not> isProcessing s' \<and> extractedData s' = extractedData s"
  by (auto simp: finally_block_def catch_block_def split: option.splits phase.splits)

lemma success_result:
  "create_ok r \<Longrightarrow> recognize_result r = Some (text, conf) \<Longrightarrow> terminate_ok r \<Longrightarrow>
     \<exists>s'. processImage file r s = Some s' \<and> progress s' = 0 \<and> \<not> isProcessing s' \<and>
          extractedData s' = Some (build_result text conf file (clock r)) \<and>
          workers s' = workers s - {next_call s}"
  by (simp add: processImage_def call_events_def run_reports begin_suspended
      fold_logger_fields finally_block_def try_end_def update_conv' begin_fields)

subsection \<open>The worker after a failure\<close>

text \<open>
  C2 fails on the code. \<open>worker.terminate()\<close> on line 39 is inside the \<open>try\<close>, after
  \<open>worker.recognize(file)\<close>; when \<open>recognize\<close> rejects, control goes to the \<open>catch\<close> and
  the \<open>finally\<close> block, which do not terminate the worker. Here the worker of call 0
  is still there after the call has returned.
\<close>

theorem recognize_failure_leaks_worker:
  "map_option workers (processImage png_file undecodable init) = Some {0} \<and>
   map_option calls (processImage png_file undecodable init) = Some []"
  by code_simp

lemma recognize_failure_keeps_worker:
  "create_ok r \<Longrightarrow> recognize_result r = None \<Longrightarrow>
     \<exists>s'. processImage file r s = Some s' \<and> next_call s \<in> workers s' \<and>
          map_of (calls s') (next_call s) = None \<and> next_call s < next_call s'"
  by (simp add: processImage_def call_events_def run_reports begin_suspended
      fold_logger_fields finally_block_def catch_block_def update_conv' delete_conv'
      processImage_begin_def)

lemma leak_step:
  "n \<in> workers s \<Longrightarrow> map_of (calls s) n = None \<Longrightarrow> n < next_call s \<Longrightarrow>
     fire e s = Some s' \<Longrightarrow>
     n \<in> workers s' \<and> map_of (calls s') n = None \<and> n < next_call s'"
  by (cases e)
    (auto simp: onDrop_def processPDF_def processImage_begin_def logger_def finally_block_def
      catch_block_def try_end_def copyToClipboard_def reset_def update_conv' delete_conv'
      split: list.splits if_splits option.splits phase.splits)

lemma leak_is_permanent:
  "n \<in> workers s \<Longrightarrow> map_of (calls s) n = None \<Longrightarrow> n < next_call s \<Longrightarrow>
     run es s = Some s' \<Longrightarrow> n \<in> workers s'"
proof (induction es arbitrary: s)
  case Nil
  then show ?case by simp
next
  case (Cons e es)
  from Cons.prems(4) obtain s1 where e: "fire e s = Some s1" and es: "run es s1 = Some s'"
    by (auto split: option.splits)
  from leak_step [OF Cons.prems(1-3) e] Cons.IH [OF _ _ _ es] show ?case
    by blast
qed

section \<open>The document stub\<close>

text \<open>
  C5. Dropping a file of type \<open>application/pdf\<close> adds one error notice and changes
  nothing else: not the result, not the processing flag, not the progress; no call of
  \<open>processImage\<close> starts and no worker is created.
\<close>

theorem pdf_drop:
  "file_type file = utf16 ''application/pdf'' \<Longrightarrow>
     fire (Drop (file # files)) s =
       Some (s\<lparr>toasts := toasts s @ [ToastError (utf16
         ''PDF processing requires a backend service. Please use image files for now.'')]\<rparr>)"
  by (simp add: onDrop_def processPDF_def)

theorem pdf_drop_witness:
  "file_type pdf_file = utf16 ''application/pdf'' \<and>
   fire (Drop [pdf_file]) init =
     Some (init\<lparr>toasts := [ToastError (utf16
       ''PDF processing requires a backend service. Please use image files for now.'')]\<rparr>)"
proof -
  have pdf: "file_type pdf_file = utf16 ''application/pdf''"
    by (simp add: pdf_file_def)
  show ?thesis
    using pdf pdf_drop [OF pdf, of "[]" init] by (simp add: init_def)
qed

section \<open>The preview\<close>


text \<open>
  A file type with no slash, such as the empty type of a file the browser does not
  know: line 206 throws and the render shows no preview.
\<close>

lemma render_throws_without_slash:
  "render_preview (init\<lparr>extractedData := Some ((result_of_length 600)\<lparr>fileType := []\<rparr>)\<rparr>) =
     Inl TypeError"
  by (simp add: render_preview_def subtype_def)



section \<open>The clipboard\<close>

text \<open>
  C9. Without a result, \<open>copyToClipboard\<close> does nothing: no write to the clipboard, no
  notice, no change of state.
\<close>

theorem copy_without_result:
  "extractedData s = None \<Longrightarrow> copyToClipboard ok s = s"
  by (simp add: copyToClipboard_def)

theorem copy_without_result_witness:
  "extractedData init = None \<and> copyToClipboard True init = init"
  using copy_without_result [of init True] by (simp add: init_def)

section \<open>Progress while idle\<close>

text \<open>
  C10, as stated, fails: with two overlapping calls of \<open>processImage\<close>, the first one
  ends and sets \<open>isProcessing\<close> to false, and then a report of the second one sets the
  progress to 50.
\<close>

theorem overlap_breaks_invariant:
  "map_option isProcessing (run overlapping init) = Some False \<and>
   map_option progress (run overlapping init) = Some 50"
  by code_simp

lemma at_most_one_step:
  "at_most_one s \<Longrightarrow> (starts_call e \<longrightarrow> calls s = []) \<Longrightarrow> fire e s = Some s' \<Longrightarrow>
     at_most_one s'"
  by (cases e)
    (auto simp: at_most_one_def onDrop_def processPDF_def processImage_begin_def logger_def
      finally_block_def catch_block_def try_end_def copyToClipboard_def reset_def
      AList.delete_eq
      split: list.splits if_splits option.splits phase.splits)

lemma at_most_one_run:
  "at_most_one s \<Longrightarrow> serial es s \<Longrightarrow> \<exists>s'. run es s = Some s' \<and> at_most_one s'"
proof (induction es arbitrary: s)
  case Nil
  then show ?case by simp
next
  case (Cons e es)
  from Cons.prems(2) obtain s1 where e: "fire e s = Some s1" and es: "serial es s1"
    and guard: "starts_call e \<longrightarrow> calls s = []"
    by (auto split: option.splits)
  from at_most_one_step [OF Cons.prems(1) guard e] have "at_most_one s1" .
  from Cons.IH [OF this es] e show ?case
    by simp
qed

lemma serial_one_by_one: "serial one_by_one init"
  by code_simp

lemma run_one_by_one:
  "map_option isProcessing (run one_by_one init) = Some False \<and>
   map_option progress (run one_by_one init) = Some 0"
  by code_simp

lemma ends_call_resets:
  "ends_call e \<Longrightarrow> fire e s = Some s' \<Longrightarrow> \<not> isProcessing s' \<and> progress s' = 0"
  by (cases e) (auto simp: finally_block_def split: option.splits phase.splits)

lemma handlers_keep_idle_progress:
  "idle_progress_zero s \<Longrightarrow>
     idle_progress_zero (reset s) \<and> idle_progress_zero (processPDF file s) \<and>
     idle_progress_zero (copyToClipboard ok s)"
  by (auto simp: idle_progress_zero_def reset_def processPDF_def copyToClipboard_def
      split: option.splits)

lemma serial_run_idle:
  "serial es init \<Longrightarrow> \<exists>t. run es init = Some t \<and> idle_progress_zero t"
proof -
  assume "serial es init"
  moreover have "at_most_one init"
    by (simp add: at_most_one_def init_def)
  ultimately obtain t where "run es init = Some t" and "at_most_one t"
    using at_most_one_run by blast
  then show ?thesis
    by (auto simp: at_most_one_def idle_progress_zero_def)
qed

text \<open>
  C10, as the code has it. If \<open>isProcessing\<close> is false then the progress is 0: this
  holds initially; every event that ends a call of \<open>processImage\<close>, on the success path
  and on each failure path, leaves \<open>isProcessing\<close> false and the progress 0; \<open>reset\<close>,
  \<open>processPDF\<close> and \<open>copyToClipboard\<close> preserve it; and it holds in every state reached
  from the initial state by a run in which no image is dropped while a call of
  \<open>processImage\<close> is suspended.
\<close>

theorem serial_idle_progress:
  "idle_progress_zero init \<and>
   (ends_call e \<and> fire e s = Some s' \<longrightarrow> \<not> isProcessing s' \<and> progress s' = 0) \<and>
   (idle_progress_zero s \<longrightarrow>
      idle_progress_zero (reset s) \<and> idle_progress_zero (processPDF file s) \<and>
      idle_progress_zero (copyToClipboard ok s)) \<and>
   (serial es init \<longrightarrow> (\<exists>t. run es init = Some t \<and> idle_progress_zero t))"
proof -
  have "idle_progress_zero init"
    by (simp add: idle_progress_zero_def init_def)
  then show ?thesis
    using ends_call_resets handlers_keep_idle_progress serial_run_idle
    by blast
qed

theorem serial_idle_progress_witness:
  "serial one_by_one init \<and>
   map_option isProcessing (run one_by_one init) = Some False \<and>
   map_option progress (run one_by_one init) = Some 0 \<and>
   ends_call (CreateRejected 0) \<and>
   map_option progress (fire (CreateRejected 0) (processImage_begin png_file init)) = Some 0 \<and>
   idle_progress_zero showing \<and> idle_progress_zero (reset showing)"
proof -
  let ?s = "processImage_begin png_file init"
  obtain s' where fired: "fire (CreateRejected 0) ?s = Some s'"
    by (simp add: processImage_begin_def init_def)
  have idle: "idle_progress_zero showing"
    by (simp add: idle_progress_zero_def showing_def init_def)
  note call = serial_idle_progress
    [where e = "CreateRejected 0" and s = ?s and s' = s' and es = one_by_one]
  note handlers = serial_idle_progress [where s = showing]
  from call serial_one_by_one obtain t
    where t: "run one_by_one init = Some t" and inv: "idle_progress_zero t"
    by blast
  from run_one_by_one t have "\<not> isProcessing t"
    by simp
  with inv have "progress t = 0"
    by (simp add: idle_progress_zero_def)
  moreover from call fired have "progress s' = 0"
    by simp
  moreover from handlers idle have "idle_progress_zero (reset showing)"
    by blast
  ultimately show ?thesis
    using t fired idle serial_one_by_one run_one_by_one by simp
qed

end
